theory Spec2Isabelle
  imports Main "HOL-Library.Sublist" "HOL-Library.Multiset"
begin

section \<open>The VPN check service of net.js\<close>

text \<open>
  The service answers \<^verbatim>\<open>GET /scan\<close> with one of four labels. It picks an IP
  string from the request, looks its autonomous system up in an offline database
  and tests the organisation name against a fixed list of keywords.

  A JavaScript string is a sequence of UTF-16 code units. The model takes strings
  over the code units below 256, which the type \<^typ>\<open>char\<close> represents one to
  one; every literal of the program is ASCII. The string methods the program calls
  (\<^verbatim>\<open>includes\<close>, \<^verbatim>\<open>startsWith\<close>, \<^verbatim>\<open>split\<close>, \<^verbatim>\<open>trim\<close>,
  \<^verbatim>\<open>toLowerCase\<close>) are modelled below as they behave on that range.
\<close>

subsection \<open>String methods of the language\<close>

text \<open>\<^verbatim>\<open>s.startsWith(p)\<close>: the first \<open>length p\<close> code units of \<open>s\<close> are \<open>p\<close>.\<close>

definition startsWith :: "string \<Rightarrow> string \<Rightarrow> bool" where
  "startsWith s p = (take (length p) s = p)"

text \<open>\<^verbatim>\<open>s.includes(k)\<close>: \<open>k\<close> starts at some position of \<open>s\<close>, scanned left to right.\<close>

fun includes_str :: "string \<Rightarrow> string \<Rightarrow> bool" where
  "includes_str [] k = (k = [])"
| "includes_str (c # cs) k = (startsWith (c # cs) k \<or> includes_str cs k)"

text \<open>
  \<^verbatim>\<open>s.split(sep)\<close> for a string separator: the pieces of \<open>s\<close> between the
  occurrences of \<open>sep\<close>, found left to right without overlap. \<open>cur\<close> holds the
  piece being read. An empty separator splits into single code units.
\<close>

function split_from :: "string \<Rightarrow> string \<Rightarrow> string \<Rightarrow> string list" where
  "split_from sep cur [] = [cur]"
| "split_from sep cur (c # cs) =
     (if sep \<noteq> [] \<and> startsWith (c # cs) sep
      then cur # split_from sep [] (drop (length sep) (c # cs))
      else split_from sep (cur @ [c]) cs)"
  by pat_completeness auto
termination
  by (relation "measure (\<lambda>(sep, cur, s). length s)") auto

definition split_str :: "string \<Rightarrow> string \<Rightarrow> string list" where
  "split_str s sep = (if sep = [] then map (\<lambda>c. [c]) s else split_from sep [] s)"

text \<open>\<^verbatim>\<open>a[i]\<close> on an array: \<^verbatim>\<open>undefined\<close> (here \<open>None\<close>) out of range.\<close>

fun at :: "'a list \<Rightarrow> nat \<Rightarrow> 'a option" where
  "at [] i = None"
| "at (x # xs) 0 = Some x"
| "at (x # xs) (Suc i) = at xs i"

text \<open>
  White space and line terminators of the language below code unit 256:
  TAB, LF, VT, FF, CR, SP and NBSP. \<^verbatim>\<open>s.trim()\<close> removes them from both ends.
\<close>

definition isWhiteSpace :: "char \<Rightarrow> bool" where
  "isWhiteSpace c =
     (c = CHR 0x09 \<or> c = CHR 0x0A \<or> c = CHR 0x0B \<or> c = CHR 0x0C \<or> c = CHR 0x0D
      \<or> c = CHR 0x20 \<or> c = CHR 0xA0)"

definition trim :: "string \<Rightarrow> string" where
  "trim s = rev (dropWhile isWhiteSpace (rev (dropWhile isWhiteSpace s)))"

text \<open>
  \<^verbatim>\<open>s.toLowerCase()\<close>: below code unit 256 the upper-case letters are A to Z
  (65 to 90) and the accented capitals 192 to 222 without the multiplication sign
  215; each maps to the code unit 32 above it, every other code unit to itself.
\<close>

definition lowerChar :: "char \<Rightarrow> char" where
  "lowerChar c =
     (let n = (of_char c :: nat)
      in if (65 \<le> n \<and> n \<le> 90) \<or> (192 \<le> n \<and> n \<le> 222 \<and> n \<noteq> 215)
         then char_of (n + 32) else c)"

definition toLowerCase :: "string \<Rightarrow> string" where
  "toLowerCase s = map lowerChar s"

text \<open>\<^verbatim>\<open>xs.some(p)\<close>: tests the elements in order and stops at the first hit.\<close>

fun some :: "('a \<Rightarrow> bool) \<Rightarrow> 'a list \<Rightarrow> bool" where
  "some p [] = False"
| "some p (x # xs) = (if p x then True else some p xs)"

text \<open>
  Values that are a string, \<^verbatim>\<open>null\<close> or \<^verbatim>\<open>undefined\<close> are a
  \<^typ>\<open>string option\<close>, \<open>None\<close> standing for both. Such a value is truthy when
  it is a non-empty string; \<^verbatim>\<open>a || b\<close> is \<open>a\<close> when \<open>a\<close> is truthy and \<open>b\<close>
  otherwise.
\<close>

definition truthy :: "string option \<Rightarrow> bool" where
  "truthy v = (case v of None \<Rightarrow> False | Some s \<Rightarrow> s \<noteq> [])"

definition js_or :: "string option \<Rightarrow> string option \<Rightarrow> string option" where
  "js_or a b = (if truthy a then a else b)"

subsection \<open>Data of the service\<close>

text \<open>
  A record of the ASN database. The reader returns an object with both attributes;
  either may be missing (\<^verbatim>\<open>undefined\<close>) in a record of the dataset.
\<close>

record asn_response =
  autonomous_system_number :: "nat option"
  autonomous_system_organization :: "string option"

text \<open>
  \<^verbatim>\<open>lookup.get(ip)\<close> returns a record or \<^verbatim>\<open>null\<close>, or throws. The global
  \<^verbatim>\<open>lookup\<close> is \<^verbatim>\<open>null\<close> until the database has been opened, and for ever
  when opening it failed.
\<close>

datatype js_error = Error string

type_synonym reader = "string \<Rightarrow> js_error + asn_response option"

text \<open>
  A query value as the framework's parser produces it: a string, an array
  (\<^verbatim>\<open>ip=a&ip=b\<close>) or an object (\<^verbatim>\<open>ip[k]=v\<close>). \<^verbatim>\<open>String(v)\<close> joins an
  array's elements with commas; an array and an object are always truthy.
\<close>

datatype query_value = QString string | QArray "query_value list" | QObject

fun joinComma :: "string list \<Rightarrow> string" where
  "joinComma [] = []"
| "joinComma [x] = x"
| "joinComma (x # y # ys) = x @ '','' @ joinComma (y # ys)"

fun toString :: "query_value \<Rightarrow> string" where
  "toString (QString s) = s"
| "toString (QArray vs) = joinComma (map toString vs)"
| "toString QObject = ''[object Object]''"

fun truthyQuery :: "query_value \<Rightarrow> bool" where
  "truthyQuery (QString s) = (s \<noteq> [])"
| "truthyQuery (QArray vs) = True"
| "truthyQuery QObject = True"

text \<open>
  What the handler reads of a request: \<^verbatim>\<open>req.query.ip\<close>,
  \<^verbatim>\<open>req.headers["x-forwarded-for"]\<close> and \<^verbatim>\<open>req.socket?.remoteAddress\<close>,
  each possibly \<^verbatim>\<open>undefined\<close>.
\<close>

record request =
  query_ip :: "query_value option"
  x_forwarded_for :: "string option"
  remoteAddress :: "string option"

text \<open>
  The four answers of \<^verbatim>\<open>/scan\<close>, in the order of the source: "Database Error",
  "Localhost", "VPN User" and "Real User". A response also records the arguments of
  the calls of \<^verbatim>\<open>lookup.get\<close> made while the request was served.
\<close>

datatype verdict = DatabaseError | Localhost | VpnUser | RealUser

record response =
  result :: verdict
  lookups :: "string list"

subsection \<open>VPN detection (isVPN)\<close>

definition vpnKeywords :: "string list" where
  "vpnKeywords =
     [''vpn'', ''proxy'', ''hosting'', ''datacenter'', ''cloud'',
      ''expressvpn'', ''nordvpn'', ''surfshark'', ''cyberghost'',
      ''private internet access'', ''ipvanish'', ''vyprvpn'',
      ''windscribe'', ''tunnelbear'', ''protonvpn'', ''mullvad'',
      ''amazon'', ''aws'', ''digitalocean'', ''ovh'', ''hetzner'',
      ''google cloud'', ''microsoft'', ''azure'', ''linode'']"

text \<open>Line 34: \<^verbatim>\<open>asnInfo.autonomous_system_organization || ""\<close>.\<close>

definition orgOf :: "asn_response \<Rightarrow> string" where
  "orgOf info =
     (case js_or (autonomous_system_organization info) (Some []) of
        None \<Rightarrow> [] | Some s \<Rightarrow> s)"

text \<open>
  \<open>isVPN_with\<close> is the body of \<^verbatim>\<open>isVPN\<close> with the keyword list as a
  parameter; \<open>isVPN\<close> is the function of the source, on its own list.
\<close>

definition isVPN_with :: "string list \<Rightarrow> asn_response option \<Rightarrow> bool" where
  "isVPN_with keywords asnInfo =
     (case asnInfo of
        None \<Rightarrow> False
      | Some info \<Rightarrow>
          (let org = toLowerCase (orgOf info)
           in some (\<lambda>keyword. includes_str org keyword) keywords))"

definition isVPN :: "asn_response option \<Rightarrow> bool" where
  "isVPN asnInfo = isVPN_with vpnKeywords asnInfo"

subsection \<open>Normalising the address (normalizeIp)\<close>

text \<open>
  Line 52: a value with a comma becomes its piece before the first comma, trimmed.
  The read \<^verbatim>\<open>[0]\<close> is in range, since a split never returns an empty array
  (lemma \<open>split_str_not_Nil\<close>).
\<close>

definition firstHop :: "string \<Rightarrow> string" where
  "firstHop ip = (if includes_str ip '','' then trim (hd (split_str ip '','')) else ip)"

text \<open>
  Line 53: a value that starts with \<^verbatim>\<open>::ffff:\<close> becomes the second piece of its
  split at \<^verbatim>\<open>::ffff:\<close>.
\<close>

definition stripMapped :: "string \<Rightarrow> string option" where
  "stripMapped ip =
     (if startsWith ip ''::ffff:'' then at (split_str ip ''::ffff:'') 1 else Some ip)"

text \<open>Lines 54 and 55: a loopback literal becomes \<^verbatim>\<open>null\<close>.\<close>

definition hideLoopback :: "string \<Rightarrow> string option" where
  "hideLoopback ip = (if ip = ''::1'' \<or> ip = ''127.0.0.1'' then None else Some ip)"

definition normalizeIp :: "string \<Rightarrow> string option" where
  "normalizeIp ipRaw =
     (if ipRaw = [] then None
      else case stripMapped (firstHop ipRaw) of
             None \<Rightarrow> None
           | Some ip \<Rightarrow> hideLoopback ip)"

subsection \<open>The handler of /scan\<close>

text \<open>Lines 64 to 68: the address the handler goes on with.\<close>

definition ipParam :: "request \<Rightarrow> string option" where
  "ipParam req =
     (case query_ip req of
        None \<Rightarrow> None
      | Some v \<Rightarrow> if truthyQuery v then Some (trim (toString v)) else None)"

definition remoteHeader :: "request \<Rightarrow> string option" where
  "remoteHeader req = js_or (x_forwarded_for req) None"

definition socketAddr :: "request \<Rightarrow> string option" where
  "socketAddr req = js_or (remoteAddress req) None"

definition candidate :: "request \<Rightarrow> string" where
  "candidate req =
     (case js_or (js_or (remoteHeader req) (socketAddr req)) (Some []) of
        None \<Rightarrow> [] | Some s \<Rightarrow> s)"

definition ipToUse :: "request \<Rightarrow> string option" where
  "ipToUse req = js_or (ipParam req) (normalizeIp (candidate req))"

text \<open>
  The handler, with the keyword list of \<^verbatim>\<open>isVPN\<close> as a parameter.
  \<^verbatim>\<open>!ipToUse\<close> holds of \<^verbatim>\<open>null\<close> and of the empty string. An error thrown
  by \<^verbatim>\<open>lookup.get\<close> is caught and leaves \<^verbatim>\<open>asnInfo\<close> at \<^verbatim>\<open>null\<close>.
\<close>

definition scan_with :: "string list \<Rightarrow> reader option \<Rightarrow> request \<Rightarrow> response" where
  "scan_with keywords lookup req =
     (case lookup of
        None \<Rightarrow> \<lparr>result = DatabaseError, lookups = []\<rparr>
      | Some db \<Rightarrow>
          (case ipToUse req of
             None \<Rightarrow> \<lparr>result = Localhost, lookups = []\<rparr>
           | Some ip \<Rightarrow>
               if ip = [] then \<lparr>result = Localhost, lookups = []\<rparr>
               else
                 (let asnInfo = (case db ip of Inl e \<Rightarrow> None | Inr r \<Rightarrow> r)
                  in \<lparr>result = (if isVPN_with keywords asnInfo then VpnUser else RealUser),
                      lookups = [ip]\<rparr>)))"

definition scan :: "reader option \<Rightarrow> request \<Rightarrow> response" where
  "scan lookup req = scan_with vpnKeywords lookup req"

text \<open>
  The process serving requests one after the other. The handler assigns no global,
  so the state \<^verbatim>\<open>lookup\<close> it returns is the one it was given.
\<close>

definition handle :: "reader option \<Rightarrow> request \<Rightarrow> response \<times> reader option" where
  "handle lookup req = (scan lookup req, lookup)"

fun serve :: "reader option \<Rightarrow> request list \<Rightarrow> response list" where
  "serve lookup [] = []"
| "serve lookup (req # reqs) =
     (case handle lookup req of (resp, lookup') \<Rightarrow> resp # serve lookup' reqs)"

subsection \<open>Sample inputs\<close>

text \<open>
  A small database and two kinds of request, used to run the handler: a request
  with the \<^verbatim>\<open>ip\<close> query parameter, arriving from the local machine, and a
  request without it, forwarded by a proxy.
\<close>

definition hostingInfo :: asn_response where
  "hostingInfo =
     \<lparr>autonomous_system_number = Some 64500,
      autonomous_system_organization = Some ''Example CLOUD Services''\<rparr>"

definition accessInfo :: asn_response where
  "accessInfo =
     \<lparr>autonomous_system_number = Some 64501,
      autonomous_system_organization = Some ''Example Telecom''\<rparr>"

definition emptyOrgInfo :: asn_response where
  "emptyOrgInfo =
     \<lparr>autonomous_system_number = Some 64502,
      autonomous_system_organization = Some []\<rparr>"

definition sampleDb :: reader where
  "sampleDb ip =
     (if ip = ''192.0.2.1'' then Inr (Some hostingInfo)
      else if ip = ''192.0.2.2'' then Inr (Some accessInfo)
      else if ip = ''192.0.2.3'' then Inr (Some emptyOrgInfo)
      else if ip = ''192.0.2.4'' \<or> ip = ''127.0.0.1'' then Inr None
      else Inl (Error ''invalid address''))"

definition emptyDb :: reader where
  "emptyDb ip = Inr None"

definition queryReq :: "string \<Rightarrow> request" where
  "queryReq ip =
     \<lparr>query_ip = Some (QString ip), x_forwarded_for = None,
      remoteAddress = Some ''::ffff:127.0.0.1''\<rparr>"

definition proxiedReq :: "string \<Rightarrow> request" where
  "proxiedReq hops =
     \<lparr>query_ip = None, x_forwarded_for = Some hops, remoteAddress = Some ''::1''\<rparr>"

section \<open>Facts about the string methods and the handler\<close>

lemma startsWith_prefix: "startsWith s p \<longleftrightarrow> prefix p s"
  unfolding startsWith_def prefix_def by (metis append_eq_conv_conj append_take_drop_id)

lemma startsWith_append: "startsWith (p @ t) p"
  by (simp add: startsWith_def)

lemma startsWith_drop: "startsWith s p \<Longrightarrow> s = p @ drop (length p) s"
  unfolding startsWith_def by (metis append_take_drop_id)

lemma includes_str_sublist: "includes_str s k \<longleftrightarrow> sublist k s"
  by (induction s) (auto simp: startsWith_prefix sublist_Cons_right)

lemma includes_str_iff: "includes_str s k \<longleftrightarrow> (\<exists>pre post. s = pre @ k @ post)"
  by (simp add: includes_str_sublist sublist_def)

lemma includes_str_char: "includes_str s [x] \<longleftrightarrow> x \<in> set s"
  by (induction s) (auto simp: startsWith_def)

lemma some_iff: "some p xs \<longleftrightarrow> (\<exists>x\<in>set xs. p x)"
  by (induction xs) auto

lemma split_from_not_Nil: "split_from sep cur s \<noteq> []"
  by (induction sep cur s rule: split_from.induct) auto

lemma split_str_not_Nil: "sep \<noteq> [] \<Longrightarrow> split_str s sep \<noteq> []"
  by (simp add: split_str_def split_from_not_Nil)

lemma split_from_no_sep: "\<not> includes_str s sep \<Longrightarrow> split_from sep cur s = [cur @ s]"
  by (induction sep cur s rule: split_from.induct) auto

lemma hd_split_from_char: "hd (split_from [x] cur s) = cur @ takeWhile (\<lambda>c. c \<noteq> x) s"
  by (induction "[x]" cur s rule: split_from.induct) (auto simp: startsWith_def)

lemma hd_split_str_comma: "hd (split_str s '','') = takeWhile (\<lambda>c. c \<noteq> CHR '','') s"
  by (simp add: split_str_def hd_split_from_char)

lemma last_dropWhile: "dropWhile P xs \<noteq> [] \<Longrightarrow> last (dropWhile P xs) = last xs"
  by (induction xs) (auto split: if_splits)

lemma trim_decomp:
  "\<exists>l r. s = l @ trim s @ r \<and> (\<forall>c\<in>set l. isWhiteSpace c) \<and> (\<forall>c\<in>set r. isWhiteSpace c)"
proof -
  define t where "t = dropWhile isWhiteSpace s"
  define l where "l = takeWhile isWhiteSpace s"
  define r where "r = rev (takeWhile isWhiteSpace (rev t))"
  have "rev (takeWhile isWhiteSpace (rev t) @ dropWhile isWhiteSpace (rev t)) = rev (rev t)"
    by (simp only: takeWhile_dropWhile_id)
  then have "rev (dropWhile isWhiteSpace (rev t)) @ rev (takeWhile isWhiteSpace (rev t)) = t"
    by (simp only: rev_append rev_rev_ident)
  then have t: "t = trim s @ r"
    by (simp add: trim_def r_def t_def)
  have "s = l @ t" by (simp add: l_def t_def)
  with t have "s = l @ trim s @ r" by simp
  moreover have "\<forall>c\<in>set l. isWhiteSpace c"
    by (auto simp: l_def dest: set_takeWhileD)
  moreover have "\<forall>c\<in>set r. isWhiteSpace c"
    by (auto simp: r_def dest: set_takeWhileD)
  ultimately show ?thesis by blast
qed

lemma trim_ends:
  assumes "trim s \<noteq> []"
  shows "\<not> isWhiteSpace (hd (trim s)) \<and> \<not> isWhiteSpace (last (trim s))"
proof -
  define t where "t = dropWhile isWhiteSpace s"
  define u where "u = dropWhile isWhiteSpace (rev t)"
  have tu: "trim s = rev u" by (simp add: trim_def u_def t_def)
  with assms have u: "u \<noteq> []" by simp
  then have t: "t \<noteq> []" by (auto simp: u_def)
  have "hd (trim s) = last u" using u by (simp add: tu hd_rev)
  also have "\<dots> = last (rev t)" using u unfolding u_def by (rule last_dropWhile)
  also have "\<dots> = hd t" using t by (simp add: last_rev)
  finally have "hd (trim s) = hd t" .
  moreover have "\<not> isWhiteSpace (hd t)" using t unfolding t_def by (rule hd_dropWhile)
  moreover have "last (trim s) = hd u" using u by (simp add: tu last_rev)
  moreover have "\<not> isWhiteSpace (hd u)" using u unfolding u_def by (rule hd_dropWhile)
  ultimately show ?thesis by simp
qed

lemma trim_Nil: "trim [] = []"
  by (simp add: trim_def)

lemma toLowerCase_append: "toLowerCase (a @ b) = toLowerCase a @ toLowerCase b"
  by (simp add: toLowerCase_def)

lemma orgOf_eq:
  "orgOf info = (case autonomous_system_organization info of None \<Rightarrow> [] | Some s \<Rightarrow> s)"
  by (simp add: orgOf_def js_or_def truthy_def split: option.splits)

lemma isVPN_with_Some:
  "isVPN_with ks (Some info) \<longleftrightarrow> (\<exists>k\<in>set ks. \<exists>pre post. toLowerCase (orgOf info) = pre @ k @ post)"
  by (simp add: isVPN_with_def some_iff includes_str_iff)

lemma isVPN_with_None: "\<not> isVPN_with ks None"
  by (simp add: isVPN_with_def)

lemma vpnKeywords_not_Nil: "k \<in> set vpnKeywords \<Longrightarrow> k \<noteq> []"
  by (auto simp: vpnKeywords_def)

lemma scan_with_lookup:
  "ipToUse req = Some ip \<Longrightarrow> ip \<noteq> [] \<Longrightarrow>
   scan_with ks (Some db) req =
     \<lparr>result = (if isVPN_with ks (case db ip of Inl e \<Rightarrow> None | Inr r \<Rightarrow> r) then VpnUser else RealUser),
      lookups = [ip]\<rparr>"
  by (simp add: scan_with_def)

lemma scan_with_no_ip:
  "\<not> truthy (ipToUse req) \<Longrightarrow> scan_with ks (Some db) req = \<lparr>result = Localhost, lookups = []\<rparr>"
  by (simp add: scan_with_def truthy_def split: option.splits)

lemma at_1_split_prefix:
  assumes "p \<noteq> []" "startsWith s p"
  shows "at (split_str s p) 1 = Some (hd (split_from p [] (drop (length p) s)))"
proof -
  from assms obtain c cs where s: "s = c # cs"
    by (cases s) (auto simp: startsWith_def)
  have "split_str s p = [] # split_from p [] (drop (length p) s)"
    using assms by (simp add: split_str_def s)
  moreover obtain y ys where "split_from p [] (drop (length p) s) = y # ys"
    using split_from_not_Nil by (cases "split_from p [] (drop (length p) s)") auto
  ultimately show ?thesis by simp
qed

lemma comma_split:
  assumes "x \<in> set s"
  shows "s = takeWhile (\<lambda>c. c \<noteq> x) s @ [x] @ tl (dropWhile (\<lambda>c. c \<noteq> x) s)"
proof -
  have "dropWhile (\<lambda>c. c \<noteq> x) s \<noteq> []"
    using assms by (simp add: dropWhile_eq_Nil_conv) 
  moreover from this have "hd (dropWhile (\<lambda>c. c \<noteq> x) s) = x"
    using hd_dropWhile [of "\<lambda>c. c \<noteq> x" s] by simp
  ultimately have "dropWhile (\<lambda>c. c \<noteq> x) s = x # tl (dropWhile (\<lambda>c. c \<noteq> x) s)"
    by (cases "dropWhile (\<lambda>c. c \<noteq> x) s") auto
  then have "takeWhile (\<lambda>c. c \<noteq> x) s @ [x] @ tl (dropWhile (\<lambda>c. c \<noteq> x) s)
      = takeWhile (\<lambda>c. c \<noteq> x) s @ dropWhile (\<lambda>c. c \<noteq> x) s"
    by simp
  then show ?thesis by simp
qed

lemma scan_with_cong:
  assumes "\<And>a. isVPN_with ks a = isVPN_with ks' a"
  shows "scan_with ks lookup req = scan_with ks' lookup req"
  by (simp add: scan_with_def assms split: option.splits)

lemma isVPN_with_set:
  assumes "set ks = set ks'"
  shows "isVPN_with ks a = isVPN_with ks' a"
  by (cases a) (simp_all add: isVPN_with_None isVPN_with_Some assms)

lemma serve_map: "serve lookup reqs = map (scan lookup) reqs"
  by (induction reqs) (simp_all add: handle_def)

lemma trim_toString_truthy: "trim (toString v) \<noteq> [] \<Longrightarrow> truthyQuery v"
  by (cases v) (auto simp: trim_Nil)

section \<open>Properties of the service\<close>

text \<open>
  C1. When the lookup returns a record, the handler answers "VPN User" if and only
  if the lower-cased organisation name (the empty string when the attribute is
  absent) contains a keyword of \<open>vpnKeywords\<close> as a substring, and "Real User"
  otherwise; \<open>isVPN\<close> is true in exactly that case. In particular a name that
  contains a keyword in any mix of upper and lower case is answered "VPN User".
\<close>

theorem scan_keyword_test:
  assumes ip: "ipToUse req = Some ip" "ip \<noteq> []"
    and db: "db ip = Inr (Some info)"
    and org: "org = (case autonomous_system_organization info of None \<Rightarrow> [] | Some s \<Rightarrow> s)"
  shows "(isVPN (Some info) \<longleftrightarrow>
            (\<exists>k\<in>set vpnKeywords. \<exists>pre post. toLowerCase org = pre @ k @ post))
       \<and> result (scan (Some db) req) =
           (if \<exists>k\<in>set vpnKeywords. \<exists>pre post. toLowerCase org = pre @ k @ post
            then VpnUser else RealUser)
       \<and> (\<forall>k\<in>set vpnKeywords. \<forall>k' pre post.
             toLowerCase k' = k \<and> org = pre @ k' @ post \<longrightarrow>
             result (scan (Some db) req) = VpnUser)"
proof -
  let ?hit = "\<exists>k\<in>set vpnKeywords. \<exists>pre post. toLowerCase org = pre @ k @ post"
  have org': "org = orgOf info"
    by (simp add: org orgOf_eq)
  have vpn: "isVPN (Some info) \<longleftrightarrow> ?hit"
    by (simp add: isVPN_def isVPN_with_Some org')
  have res: "result (scan (Some db) req) = (if ?hit then VpnUser else RealUser)"
    using vpn by (simp add: scan_def scan_with_lookup [OF ip] db isVPN_def)
  have "result (scan (Some db) req) = VpnUser"
    if "k \<in> set vpnKeywords" "toLowerCase k' = k" "org = pre @ k' @ post" for k k' pre post
  proof -
    have "toLowerCase org = toLowerCase pre @ k @ toLowerCase post"
      using that by (simp add: toLowerCase_append)
    with that(1) have ?hit by blast
    with res show ?thesis by simp
  qed
  with vpn res show ?thesis by blast
qed

text \<open>The sample request for 192.0.2.1, whose organisation contains "CLOUD".\<close>

theorem scan_keyword_test_witness:
  "ipToUse (queryReq ''192.0.2.1'') = Some ''192.0.2.1''
   \<and> sampleDb ''192.0.2.1'' = Inr (Some hostingInfo)
   \<and> isVPN (Some hostingInfo)
   \<and> result (scan (Some sampleDb) (queryReq ''192.0.2.1'')) = VpnUser"
proof -
  have ip: "ipToUse (queryReq ''192.0.2.1'') = Some ''192.0.2.1''" "''192.0.2.1'' \<noteq> []"
    by code_simp+
  have db: "sampleDb ''192.0.2.1'' = Inr (Some hostingInfo)"
    by (simp add: sampleDb_def)
  have org: "''Example CLOUD Services'' =
      (case autonomous_system_organization hostingInfo of None \<Rightarrow> [] | Some s \<Rightarrow> s)"
    by (simp add: hostingInfo_def)
  have kw: "''cloud'' \<in> set vpnKeywords"
    by (simp add: vpnKeywords_def)
  have lc: "toLowerCase ''CLOUD'' = ''cloud'' \<and> ''Example CLOUD Services'' = ''Example '' @ ''CLOUD'' @ '' Services''"
    by code_simp
  note t = scan_keyword_test [where db = sampleDb and ip = "''192.0.2.1''", OF ip db org]
  from t kw lc have r: "result (scan (Some sampleDb) (queryReq ''192.0.2.1'')) = VpnUser"
    by blast
  from t r have "isVPN (Some hostingInfo)"
    by (simp split: if_splits)
  with ip db r show ?thesis by simp
qed

text \<open>
  C2. When the database failed to load (\<^verbatim>\<open>lookup\<close> is \<^verbatim>\<open>null\<close>), the handler
  answers "Database Error" whatever the query parameter, the forwarded-for header
  and the socket address are, and it calls no lookup.
\<close>

theorem scan_database_error:
  "scan None req = \<lparr>result = DatabaseError, lookups = []\<rparr>"
  by (simp add: scan_def scan_with_def)

text \<open>
  C3. For a request that reaches the lookup, a missing record and a record whose
  organisation name is the empty string are both answered "Real User": no keyword
  is a substring of the empty string.
\<close>

theorem scan_absent_or_empty_org:
  assumes ip: "ipToUse req = Some ip" "ip \<noteq> []"
    and absent: "db1 ip = Inr None"
    and present: "db2 ip = Inr (Some info)"
    and empty: "autonomous_system_organization info = Some []"
  shows "result (scan (Some db1) req) = RealUser
       \<and> result (scan (Some db2) req) = RealUser
       \<and> \<not> isVPN None \<and> \<not> isVPN (Some info)
       \<and> \<not> (\<exists>k\<in>set vpnKeywords. \<exists>pre post. [] = pre @ k @ post)"
proof -
  have none: "\<not> (\<exists>k\<in>set vpnKeywords. \<exists>pre post. [] = pre @ k @ post)"
    by (auto dest: vpnKeywords_not_Nil)
  have "orgOf info = []"
    by (simp add: orgOf_eq empty)
  then have info: "\<not> isVPN (Some info)"
    using none by (simp add: isVPN_def isVPN_with_Some toLowerCase_def)
  have no: "\<not> isVPN None"
    by (simp add: isVPN_def isVPN_with_None)
  have "result (scan (Some db1) req) = RealUser"
    using no by (simp add: scan_def scan_with_lookup [OF ip] absent isVPN_def)
  moreover have "result (scan (Some db2) req) = RealUser"
    using info by (simp add: scan_def scan_with_lookup [OF ip] present isVPN_def)
  ultimately show ?thesis using none info no by blast
qed

text \<open>A forwarded request for 192.0.2.3, on the empty and on the sample database.\<close>

theorem scan_absent_or_empty_org_witness:
  "ipToUse (proxiedReq ''192.0.2.3, 10.0.0.1'') = Some ''192.0.2.3''
   \<and> emptyDb ''192.0.2.3'' = Inr None
   \<and> sampleDb ''192.0.2.3'' = Inr (Some emptyOrgInfo)
   \<and> autonomous_system_organization emptyOrgInfo = Some []
   \<and> result (scan (Some emptyDb) (proxiedReq ''192.0.2.3, 10.0.0.1'')) = RealUser
   \<and> result (scan (Some sampleDb) (proxiedReq ''192.0.2.3, 10.0.0.1'')) = RealUser"
proof -
  have ip: "ipToUse (proxiedReq ''192.0.2.3, 10.0.0.1'') = Some ''192.0.2.3''"
      "''192.0.2.3'' \<noteq> []"
    by code_simp+
  have absent: "emptyDb ''192.0.2.3'' = Inr None"
    by (simp add: emptyDb_def)
  have present: "sampleDb ''192.0.2.3'' = Inr (Some emptyOrgInfo)"
    by (simp add: sampleDb_def)
  have empty: "autonomous_system_organization emptyOrgInfo = Some []"
    by (simp add: emptyOrgInfo_def)
  from scan_absent_or_empty_org
      [where ?db1.0 = emptyDb and ?db2.0 = sampleDb and ip = "''192.0.2.3''",
       OF ip absent present empty] ip absent present empty
  show ?thesis by simp
qed

text \<open>
  C4. When \<^verbatim>\<open>lookup.get\<close> throws on the address of the request, the handler
  catches the error and answers "Real User"; the response is the one a database
  without a record for that address gives.
\<close>

theorem scan_lookup_error:
  assumes ip: "ipToUse req = Some ip" "ip \<noteq> []"
    and err: "db ip = Inl e"
  shows "scan (Some db) req = \<lparr>result = RealUser, lookups = [ip]\<rparr>
       \<and> (\<forall>db'. db' ip = Inr None \<longrightarrow> scan (Some db') req = scan (Some db) req)"
  by (simp add: scan_def scan_with_lookup [OF ip] err isVPN_with_None)

text \<open>A malformed address, on which the sample database throws.\<close>

theorem scan_lookup_error_witness:
  "ipToUse (queryReq ''not an address'') = Some ''not an address''
   \<and> sampleDb ''not an address'' = Inl (Error ''invalid address'')
   \<and> scan (Some sampleDb) (queryReq ''not an address'')
       = \<lparr>result = RealUser, lookups = [''not an address'']\<rparr>
   \<and> scan (Some emptyDb) (queryReq ''not an address'')
       = scan (Some sampleDb) (queryReq ''not an address'')"
proof -
  have ip: "ipToUse (queryReq ''not an address'') = Some ''not an address''"
      "''not an address'' \<noteq> []"
    by code_simp+
  have err: "sampleDb ''not an address'' = Inl (Error ''invalid address'')"
    by (simp add: sampleDb_def)
  have "emptyDb ''not an address'' = Inr None"
    by (simp add: emptyDb_def)
  with scan_lookup_error [where db = sampleDb and ip = "''not an address''", OF ip err] ip err
  show ?thesis by simp
qed

text \<open>
  C5. When the value left by the comma and prefix steps (lines 52 and 53) is the
  literal "::1" or "127.0.0.1", \<open>normalizeIp\<close> returns \<^verbatim>\<open>null\<close>; a request
  without a usable \<^verbatim>\<open>ip\<close> query parameter whose header or socket value is
  such a string is answered "Localhost", with the database loaded and no lookup.
\<close>

theorem normalizeIp_loopback:
  assumes steps: "stripMapped (firstHop s) = Some ip"
    and loop: "ip = ''::1'' \<or> ip = ''127.0.0.1''"
  shows "normalizeIp s = None
       \<and> (\<forall>db req. \<not> truthy (ipParam req) \<and> candidate req = s \<longrightarrow>
             scan (Some db) req = \<lparr>result = Localhost, lookups = []\<rparr>)"
proof -
  have n: "normalizeIp s = None"
    using loop by (auto simp: normalizeIp_def steps hideLoopback_def)
  have "scan (Some db) req = \<lparr>result = Localhost, lookups = []\<rparr>"
    if "\<not> truthy (ipParam req)" "candidate req = s" for db req
  proof -
    have "ipToUse req = None"
      using that n by (simp add: ipToUse_def js_or_def)
    then show ?thesis
      by (simp add: scan_def scan_with_no_ip truthy_def)
  qed
  with n show ?thesis by blast
qed

text \<open>
  A forwarded-for list whose first hop is the IPv4-mapped loopback address.
\<close>

theorem normalizeIp_loopback_witness:
  "stripMapped (firstHop ''::ffff:127.0.0.1 , 203.0.113.7'') = Some ''127.0.0.1''
   \<and> normalizeIp ''::ffff:127.0.0.1 , 203.0.113.7'' = None
   \<and> \<not> truthy (ipParam (proxiedReq ''::ffff:127.0.0.1 , 203.0.113.7''))
   \<and> candidate (proxiedReq ''::ffff:127.0.0.1 , 203.0.113.7'') = ''::ffff:127.0.0.1 , 203.0.113.7''
   \<and> scan (Some sampleDb) (proxiedReq ''::ffff:127.0.0.1 , 203.0.113.7'')
       = \<lparr>result = Localhost, lookups = []\<rparr>"
proof -
  have steps: "stripMapped (firstHop ''::ffff:127.0.0.1 , 203.0.113.7'') = Some ''127.0.0.1''"
    by code_simp
  have loop: "''127.0.0.1'' = ''::1'' \<or> ''127.0.0.1'' = ''127.0.0.1''"
    by simp
  have req: "\<not> truthy (ipParam (proxiedReq ''::ffff:127.0.0.1 , 203.0.113.7''))"
    "candidate (proxiedReq ''::ffff:127.0.0.1 , 203.0.113.7'') = ''::ffff:127.0.0.1 , 203.0.113.7''"
    by code_simp+
  from normalizeIp_loopback [OF steps loop] steps req show ?thesis
    by blast
qed

text \<open>
  C6, as stated, fails: the input "::ffff:127.0.0.1" starts with the prefix and has
  no comma, and \<open>normalizeIp\<close> returns \<^verbatim>\<open>null\<close> for it, not the remainder
  "127.0.0.1", because the loopback test of line 54 follows the prefix step.
\<close>

theorem normalizeIp_mapped_counterexample:
  "startsWith ''::ffff:127.0.0.1'' ''::ffff:''
   \<and> \<not> includes_str ''::ffff:127.0.0.1'' '',''
   \<and> drop (length ''::ffff:'') ''::ffff:127.0.0.1'' = ''127.0.0.1''
   \<and> normalizeIp ''::ffff:127.0.0.1'' = None
   \<and> normalizeIp ''::ffff:127.0.0.1'' \<noteq> Some ''127.0.0.1''"
  by code_simp

text \<open>
  C6, amended. For an input that starts with "::ffff:", has no comma and has no
  further "::ffff:" after the prefix, \<open>normalizeIp\<close> strips the prefix: it returns
  the remainder, unless the remainder is "::1" or "127.0.0.1", for which it returns
  \<^verbatim>\<open>null\<close>. In particular "::ffff:8.8.8.8" gives "8.8.8.8".
\<close>

theorem normalizeIp_mapped:
  assumes pre: "startsWith s ''::ffff:''"
    and comma: "\<not> includes_str s '',''"
    and once: "\<not> includes_str (drop (length ''::ffff:'') s) ''::ffff:''"
  shows "normalizeIp s =
           (if drop (length ''::ffff:'') s = ''::1'' \<or> drop (length ''::ffff:'') s = ''127.0.0.1''
            then None else Some (drop (length ''::ffff:'') s))
       \<and> s = ''::ffff:'' @ drop (length ''::ffff:'') s
       \<and> normalizeIp ''::ffff:8.8.8.8'' = Some ''8.8.8.8''"
proof -
  let ?rest = "drop (length ''::ffff:'') s"
  have s: "s = ''::ffff:'' @ ?rest"
    using pre by (rule startsWith_drop)
  then have ne: "s \<noteq> []" by auto
  have "at (split_str s ''::ffff:'') 1 = Some (hd (split_from ''::ffff:'' [] ?rest))"
    using pre by (intro at_1_split_prefix) simp_all
  also have "split_from ''::ffff:'' [] ?rest = [?rest]"
    using once by (simp add: split_from_no_sep)
  finally have "stripMapped s = Some ?rest"
    using pre by (simp add: stripMapped_def)
  then have "normalizeIp s = hideLoopback ?rest"
    using ne comma by (simp add: normalizeIp_def firstHop_def)
  moreover have "normalizeIp ''::ffff:8.8.8.8'' = Some ''8.8.8.8''"
    by code_simp
  ultimately show ?thesis
    using s by (simp add: hideLoopback_def)
qed

text \<open>
  An IPv4-mapped address of the documentation range.
\<close>

theorem normalizeIp_mapped_witness:
  "startsWith ''::ffff:203.0.113.7'' ''::ffff:''
   \<and> \<not> includes_str ''::ffff:203.0.113.7'' '',''
   \<and> \<not> includes_str (drop (length ''::ffff:'') ''::ffff:203.0.113.7'') ''::ffff:''
   \<and> normalizeIp ''::ffff:203.0.113.7'' = Some ''203.0.113.7''"
proof -
  have pre: "startsWith ''::ffff:203.0.113.7'' ''::ffff:''"
    and comma: "\<not> includes_str ''::ffff:203.0.113.7'' '',''"
    and once: "\<not> includes_str (drop (length ''::ffff:'') ''::ffff:203.0.113.7'') ''::ffff:''"
    by code_simp+
  from normalizeIp_mapped [OF pre comma once] pre comma once show ?thesis
    by simp
qed

text \<open>
  C7. An input with a comma is cut to its part \<open>pre\<close> before the first comma,
  and \<open>pre\<close> is trimmed: \<open>trim pre\<close> is \<open>pre\<close> without the white space \<open>l\<close>
  and \<open>r\<close> at its ends, and neither begins nor ends with white space. The prefix
  and loopback steps are then applied to \<open>trim pre\<close>.
\<close>

theorem normalizeIp_first_hop:
  assumes comma: "includes_str s '',''"
  shows "\<exists>pre post l r.
           s = pre @ '','' @ post \<and> CHR '','' \<notin> set pre
         \<and> pre = l @ trim pre @ r
         \<and> (\<forall>c\<in>set l \<union> set r. isWhiteSpace c)
         \<and> (trim pre \<noteq> [] \<longrightarrow>
               \<not> isWhiteSpace (hd (trim pre)) \<and> \<not> isWhiteSpace (last (trim pre)))
         \<and> firstHop s = trim pre
         \<and> normalizeIp s =
             (case stripMapped (trim pre) of None \<Rightarrow> None | Some ip \<Rightarrow> hideLoopback ip)"
proof -
  define pre where "pre = takeWhile (\<lambda>c. c \<noteq> CHR '','') s"
  define post where "post = tl (dropWhile (\<lambda>c. c \<noteq> CHR '','') s)"
  from comma have mem: "CHR '','' \<in> set s"
    by (simp add: includes_str_char)
  then have ne: "s \<noteq> []" by auto
  have s: "s = pre @ '','' @ post"
    unfolding pre_def post_def using comma_split [OF mem] by simp
  have nopre: "CHR '','' \<notin> set pre"
    by (auto simp: pre_def dest: set_takeWhileD)
  obtain l r where lr: "pre = l @ trim pre @ r"
      "\<forall>c\<in>set l. isWhiteSpace c" "\<forall>c\<in>set r. isWhiteSpace c"
    using trim_decomp [of pre] by blast
  have hop: "firstHop s = trim pre"
    using comma by (simp add: firstHop_def hd_split_str_comma pre_def)
  have norm: "normalizeIp s =
      (case stripMapped (trim pre) of None \<Rightarrow> None | Some ip \<Rightarrow> hideLoopback ip)"
    using ne by (simp add: normalizeIp_def hop)
  have ends: "trim pre \<noteq> [] \<longrightarrow>
      \<not> isWhiteSpace (hd (trim pre)) \<and> \<not> isWhiteSpace (last (trim pre))"
    using trim_ends [of pre] by blast
  from lr have ws: "\<forall>c\<in>set l \<union> set r. isWhiteSpace c" by blast
  from s nopre lr(1) ws ends hop norm show ?thesis by blast
qed

text \<open>
  A forwarded-for list of two hops with blanks around the first.
\<close>

theorem normalizeIp_first_hop_witness:
  "includes_str '' 203.0.113.7 , 10.0.0.1'' '',''
   \<and> (\<exists>pre post l r.
           '' 203.0.113.7 , 10.0.0.1'' = pre @ '','' @ post \<and> CHR '','' \<notin> set pre
         \<and> pre = l @ trim pre @ r
         \<and> (\<forall>c\<in>set l \<union> set r. isWhiteSpace c)
         \<and> (trim pre \<noteq> [] \<longrightarrow>
               \<not> isWhiteSpace (hd (trim pre)) \<and> \<not> isWhiteSpace (last (trim pre)))
         \<and> firstHop '' 203.0.113.7 , 10.0.0.1'' = trim pre
         \<and> normalizeIp '' 203.0.113.7 , 10.0.0.1'' =
             (case stripMapped (trim pre) of None \<Rightarrow> None | Some ip \<Rightarrow> hideLoopback ip))
   \<and> firstHop '' 203.0.113.7 , 10.0.0.1'' = ''203.0.113.7''
   \<and> normalizeIp '' 203.0.113.7 , 10.0.0.1'' = Some ''203.0.113.7''"
proof -
  have comma: "includes_str '' 203.0.113.7 , 10.0.0.1'' '',''"
    by code_simp
  have hop: "firstHop '' 203.0.113.7 , 10.0.0.1'' = ''203.0.113.7''"
    by code_simp
  have norm: "normalizeIp '' 203.0.113.7 , 10.0.0.1'' = Some ''203.0.113.7''"
    by code_simp
  note ex = normalizeIp_first_hop [OF comma]
  show ?thesis
    by (rule conjI [OF comma conjI [OF ex conjI [OF hop norm]]])
qed

text \<open>
  C8. The result of \<open>isVPN\<close>, and with it the answer of the handler, is the
  same for every reordering of the keyword list.
\<close>

theorem isVPN_keyword_order:
  assumes perm: "mset ks = mset vpnKeywords"
  shows "isVPN_with ks asnInfo = isVPN asnInfo
       \<and> scan_with ks lookup req = scan lookup req"
proof -
  from perm have "set ks = set vpnKeywords"
    by (rule mset_eq_setD)
  then have same: "isVPN_with ks a = isVPN_with vpnKeywords a" for a
    by (rule isVPN_with_set)
  have "scan_with ks lookup req = scan_with vpnKeywords lookup req"
    using same by (rule scan_with_cong)
  with same show ?thesis
    by (simp add: isVPN_def scan_def)
qed

text \<open>
  The keyword list reversed.
\<close>

theorem isVPN_keyword_order_witness:
  "mset (rev vpnKeywords) = mset vpnKeywords
   \<and> isVPN_with (rev vpnKeywords) (Some hostingInfo) = isVPN (Some hostingInfo)
   \<and> scan_with (rev vpnKeywords) (Some sampleDb) (queryReq ''192.0.2.1'')
       = scan (Some sampleDb) (queryReq ''192.0.2.1'')"
proof -
  have perm: "mset (rev vpnKeywords) = mset vpnKeywords"
    by simp
  note t = isVPN_keyword_order
    [OF perm, of "Some hostingInfo" "Some sampleDb" "queryReq ''192.0.2.1''"]
  show ?thesis
    by (rule conjI [OF perm t])
qed

text \<open>
  C9. Two requests with the same address \<open>ipToUse\<close>, served on database
  states that are both loaded or both not and that return the same for that
  address, get the same response. The handler leaves the global \<^verbatim>\<open>lookup\<close> as
  it is, so in a run of requests each response is the one of the single call.
\<close>

theorem scan_deterministic:
  assumes same_ip: "ipToUse r1 = ipToUse r2"
    and ready: "(l1 = None) = (l2 = None)"
    and same_rec: "\<forall>db1 db2 ip. l1 = Some db1 \<and> l2 = Some db2 \<and> ipToUse r1 = Some ip
                     \<longrightarrow> db1 ip = db2 ip"
  shows "scan l1 r1 = scan l2 r2
       \<and> snd (handle l1 r1) = l1
       \<and> serve l1 reqs = map (scan l1) reqs"
proof -
  have "scan l1 r1 = scan l2 r2"
  proof (cases l1)
    case None
    with ready show ?thesis by (simp add: scan_def scan_with_def)
  next
    case (Some db1)
    with ready obtain db2 where l2: "l2 = Some db2" by (cases l2) auto
    show ?thesis
    proof (cases "ipToUse r1")
      case None
      with same_ip Some l2 show ?thesis by (simp add: scan_def scan_with_def)
    next
      case (Some ip)
      with same_rec \<open>l1 = Some db1\<close> l2 have "db1 ip = db2 ip" by blast
      with Some same_ip \<open>l1 = Some db1\<close> l2 show ?thesis
        by (simp add: scan_def scan_with_def)
    qed
  qed
  then show ?thesis by (simp add: serve_map handle_def)
qed

text \<open>
  The same address once as a query parameter and once as a forwarded-for header.
\<close>

theorem scan_deterministic_witness:
  "ipToUse (queryReq ''192.0.2.1'') = ipToUse (proxiedReq ''192.0.2.1, 10.0.0.1'')
   \<and> scan (Some sampleDb) (queryReq ''192.0.2.1'')
       = scan (Some sampleDb) (proxiedReq ''192.0.2.1, 10.0.0.1'')
   \<and> serve (Some sampleDb) [queryReq ''192.0.2.1'', queryReq ''192.0.2.1'']
       = [scan (Some sampleDb) (queryReq ''192.0.2.1''), scan (Some sampleDb) (queryReq ''192.0.2.1'')]"
proof -
  have same_ip: "ipToUse (queryReq ''192.0.2.1'') = ipToUse (proxiedReq ''192.0.2.1, 10.0.0.1'')"
    by code_simp
  have ready: "(Some sampleDb = None) = (Some sampleDb = None)"
    by simp
  have same_rec: "\<forall>db1 db2 ip. Some sampleDb = Some db1 \<and> Some sampleDb = Some db2
      \<and> ipToUse (queryReq ''192.0.2.1'') = Some ip \<longrightarrow> db1 ip = db2 ip"
    by simp
  from scan_deterministic [OF same_ip ready same_rec,
      of "[queryReq ''192.0.2.1'', queryReq ''192.0.2.1'']"] same_ip
  show ?thesis by simp
qed

text \<open>
  C10. With the database loaded and an \<^verbatim>\<open>ip\<close> query parameter that is not
  empty after trimming, the handler passes the trimmed parameter to
  \<^verbatim>\<open>lookup.get\<close> as it is and answers "VPN User" or "Real User", never
  "Localhost"; \<open>normalizeIp\<close> and its loopback test are not applied to it.
\<close>

theorem scan_query_override:
  assumes q: "query_ip req = Some v"
    and ne: "trim (toString v) \<noteq> []"
  shows "ipToUse req = Some (trim (toString v))
       \<and> lookups (scan (Some db) req) = [trim (toString v)]
       \<and> result (scan (Some db) req) =
           (if isVPN (case db (trim (toString v)) of Inl e \<Rightarrow> None | Inr r \<Rightarrow> r)
            then VpnUser else RealUser)
       \<and> result (scan (Some db) req) \<noteq> Localhost"
proof -
  have "ipParam req = Some (trim (toString v))"
    using trim_toString_truthy [OF ne] by (simp add: ipParam_def q)
  then have ip: "ipToUse req = Some (trim (toString v))"
    using ne by (simp add: ipToUse_def js_or_def truthy_def)
  show ?thesis
    by (simp add: ip scan_def scan_with_lookup [OF ip ne] isVPN_def)
qed

text \<open>
  The query \<^verbatim>\<open>ip=127.0.0.1\<close> is looked up and answered "Real User".
\<close>

theorem scan_query_override_witness:
  "query_ip (queryReq ''127.0.0.1'') = Some (QString ''127.0.0.1'')
   \<and> trim (toString (QString ''127.0.0.1'')) = ''127.0.0.1''
   \<and> lookups (scan (Some sampleDb) (queryReq ''127.0.0.1'')) = [''127.0.0.1'']
   \<and> result (scan (Some sampleDb) (queryReq ''127.0.0.1'')) = RealUser"
proof -
  have q: "query_ip (queryReq ''127.0.0.1'') = Some (QString ''127.0.0.1'')"
    by (simp add: queryReq_def)
  have t: "trim (toString (QString ''127.0.0.1'')) = ''127.0.0.1''"
    by code_simp
  then have ne: "trim (toString (QString ''127.0.0.1'')) \<noteq> []"
    by simp
  have v: "\<not> isVPN (case sampleDb ''127.0.0.1'' of Inl e \<Rightarrow> None | Inr r \<Rightarrow> r)"
    by (simp add: sampleDb_def isVPN_def isVPN_with_None)
  from scan_query_override [OF q ne, of sampleDb] q t v show ?thesis
    by simp
qed

end
